theory Spec2Isabelle
  imports Main
begin

section \<open>Python values used by \<^verbatim>\<open>main.py\<close>\<close>

text \<open>
  A Python \<^verbatim>\<open>str\<close> is a sequence of code points and \<^verbatim>\<open>len\<close> counts code points, so a
  string is modelled as a list of code points (natural numbers). \<open>lit\<close> turns an ASCII
  literal of the source into such a list. Python integers are unbounded: \<^typ>\<open>int\<close>.
\<close>

type_synonym str = "nat list"

definition lit :: "string \<Rightarrow> str" where
  "lit cs = map of_char cs"

text \<open>The exceptions that the statements of \<^verbatim>\<open>main.py\<close> raise themselves.\<close>

datatype exn = SystemExit | ValueError | OverflowError | AttributeError | IndexError

text \<open>\<^verbatim>\<open>chr(k)\<close>: the one-character string of code point \<open>k\<close>; \<^verbatim>\<open>OverflowError\<close> when
  \<open>k\<close> is no C \<^verbatim>\<open>int\<close>, \<^verbatim>\<open>ValueError\<close> otherwise outside \<^verbatim>\<open>range(0x110000)\<close>.\<close>

definition chr :: "int \<Rightarrow> exn + str" where
  "chr k =
     (if k < - 2147483648 \<or> 2147483647 < k then Inl OverflowError
      else if 0 \<le> k \<and> k < 1114112 then Inr [nat k]
      else Inl ValueError)"

text \<open>\<^verbatim>\<open>xs[:w]\<close> and \<^verbatim>\<open>xs[w:]\<close>: a negative bound counts from the end, and every bound is
  clipped to the sequence.\<close>

definition slice_to :: "int \<Rightarrow> 'a list \<Rightarrow> 'a list" where
  "slice_to w xs = (if 0 \<le> w then take (nat w) xs else take (length xs - nat (- w)) xs)"

definition slice_from :: "int \<Rightarrow> 'a list \<Rightarrow> 'a list" where
  "slice_from w xs = (if 0 \<le> w then drop (nat w) xs else drop (length xs - nat (- w)) xs)"

text \<open>\<^verbatim>\<open>s.split("\n")\<close>: the segments between newlines (code point 10); never empty, and a
  trailing newline gives a last empty segment.\<close>

fun split_nl :: "str \<Rightarrow> str list" where
  "split_nl [] = [[]]"
| "split_nl (c # cs) =
     (if c = 10 then [] # split_nl cs else (c # hd (split_nl cs)) # tl (split_nl cs))"

text \<open>\<^verbatim>\<open>" ".join(args)\<close>.\<close>

fun join_space :: "str list \<Rightarrow> str" where
  "join_space [] = []"
| "join_space [a] = a"
| "join_space (a # b # bs) = a @ [32] @ join_space (b # bs)"

text \<open>\<^verbatim>\<open>xs[j]\<close>: a negative index counts from the end; \<^verbatim>\<open>IndexError\<close> out of range.\<close>

definition getitem :: "'a list \<Rightarrow> int \<Rightarrow> exn + 'a" where
  "getitem xs j =
     (let n = int (length xs); k = (if j < 0 then n + j else j)
      in if 0 \<le> k \<and> k < n then Inr (xs ! nat k) else Inl IndexError)"

section \<open>\<^verbatim>\<open>class TextComponent\<close>\<close>

record TextComponent =
  content :: str
  details_text :: str
  max_width :: int

text \<open>
  The field \<open>content\<close> is \<^verbatim>\<open>self.text\<close>, \<open>details_text\<close> is \<^verbatim>\<open>self._details\<close> and
  \<open>max_width\<close> is \<^verbatim>\<open>self._max_width\<close>.

  The properties \<^verbatim>\<open>lines\<close> and \<^verbatim>\<open>details\<close> run the same two loops. The inner
  \<^verbatim>\<open>while len(line) > self._max_width\<close> loop, together with the \<^verbatim>\<open>lines.append(line)\<close>
  that follows it, is \<open>wrap_while\<close>; it may run forever, so it is a partial function
  and \<open>None\<close> means that the loop does not return.
\<close>

partial_function (option) wrap_while :: "int \<Rightarrow> str \<Rightarrow> str list \<Rightarrow> str list option" where
  "wrap_while w line lines =
     (if int (length line) > w
      then wrap_while w (slice_from w line) (lines @ [slice_to w line])
      else Some (lines @ [line]))"

text \<open>The outer \<^verbatim>\<open>for line in ... .split("\n")\<close> loop.\<close>

fun wrap_for :: "int \<Rightarrow> str list \<Rightarrow> str list \<Rightarrow> str list option" where
  "wrap_for w [] lines = Some lines"
| "wrap_for w (line # rest) lines =
     (case wrap_while w line lines of None \<Rightarrow> None | Some lines' \<Rightarrow> wrap_for w rest lines')"

definition wrap :: "int \<Rightarrow> str \<Rightarrow> str list option" where
  "wrap w s = wrap_for w (split_nl s) []"

definition TextComponent_lines :: "TextComponent \<Rightarrow> str list option" where
  "TextComponent_lines t = wrap (max_width t) (content t)"

definition TextComponent_details :: "TextComponent \<Rightarrow> str list option" where
  "TextComponent_details t = wrap (max_width t) (details_text t)"

section \<open>\<^verbatim>\<open>class State\<close> and \<^verbatim>\<open>class Key\<close>\<close>

datatype State = LOGS | DETAILS | COMMAND

text \<open>
  Five key codes of \<^verbatim>\<open>class Key\<close> are read from Python's \<^verbatim>\<open>curses\<close> module, which is not
  part of the repository: they are a parameter of the model. \<open>ncurses\<close> is the table of
  the ncurses library, used for concrete runs. The other key codes are literals of the
  source.
\<close>

record curses =
  KEY_UP :: int
  KEY_DOWN :: int
  KEY_HOME :: int
  KEY_END :: int
  KEY_RESIZE :: int

definition ncurses :: curses where
  "ncurses = \<lparr>KEY_UP = 259, KEY_DOWN = 258, KEY_HOME = 262, KEY_END = 360, KEY_RESIZE = 410\<rparr>"

definition BACKSPACE :: int where "BACKSPACE = 8"
definition ENTER :: int where "ENTER = 10"
definition ESCAPE :: int where "ESCAPE = 27"
definition SPACE :: int where "SPACE = 32"
definition SLASH :: int where "SLASH = 47"
definition CTRL_L :: int where "CTRL_L = 12"
definition J :: int where "J = 106"
definition K :: int where "K = 107"

section \<open>\<^verbatim>\<open>class Console\<close>\<close>

text \<open>
  The fields of a console that the code computes with. The curses window and the
  thread are outside the model: what the window reports (\<^verbatim>\<open>getmaxyx\<close>, \<^verbatim>\<open>getch\<close>) is an
  argument of the operation that asks for it, and what is drawn on it is the list of
  calls that \<open>render\<close> returns.
\<close>

record Console =
  state :: State
  buffer :: "TextComponent list"
  width :: int
  height :: int
  scroll :: int
  cursor_x :: int
  cursor_y :: int
  command :: str

definition buffer_size :: int where
  "buffer_size = 1000"

text \<open>\<^verbatim>\<open>_getmaxyx\<close>: the window's rows and columns, one row kept for the status line.\<close>

definition getmaxyx :: "int \<times> int \<Rightarrow> int \<times> int" where
  "getmaxyx yx = (fst yx - 1, snd yx)"

text \<open>\<^verbatim>\<open>__init__\<close>, on a window of the given size (the first \<^verbatim>\<open>render\<close> only draws).\<close>

definition Console_init :: "int \<times> int \<Rightarrow> Console" where
  "Console_init yx =
     \<lparr>state = LOGS, buffer = [], width = snd (getmaxyx yx), height = fst (getmaxyx yx),
      scroll = 0, cursor_x = 0, cursor_y = 0, command = []\<rparr>"

text \<open>The property \<^verbatim>\<open>Console.lines\<close>: the loop adding \<^verbatim>\<open>len(text.lines)\<close> over the buffer.\<close>

fun sum_lines :: "TextComponent list \<Rightarrow> int \<Rightarrow> int option" where
  "sum_lines [] n = Some n"
| "sum_lines (t # ts) n =
     (case TextComponent_lines t of
        None \<Rightarrow> None
      | Some ls \<Rightarrow> sum_lines ts (n + int (length ls)))"

definition Console_lines :: "Console \<Rightarrow> int option" where
  "Console_lines s = sum_lines (buffer s) 0"

definition current_line :: "Console \<Rightarrow> int" where
  "current_line s = cursor_y s + scroll s"

text \<open>\<^verbatim>\<open>_get_text\<close>: the loop over the buffer with its running total \<open>current\<close>; the inner
  \<open>None\<close> is Python's \<^verbatim>\<open>None\<close>, returned when the loop runs out.\<close>

fun get_text :: "TextComponent list \<Rightarrow> int \<Rightarrow> int \<Rightarrow> TextComponent option option" where
  "get_text [] current line = Some None"
| "get_text (t # ts) current line =
     (case TextComponent_lines t of
        None \<Rightarrow> None
      | Some ls \<Rightarrow>
          (if current + int (length ls) > line then Some (Some t)
           else get_text ts (current + int (length ls)) line))"

text \<open>\<^verbatim>\<open>_move_cursor\<close>.\<close>

definition move_cursor :: "Console \<Rightarrow> int \<Rightarrow> int \<Rightarrow> Console option" where
  "move_cursor s x y =
     (case (if cursor_y s + y < 0 then Some (s\<lparr>scroll := max 0 (scroll s + y)\<rparr>)
            else if cursor_y s + y \<ge> height s
            then (case Console_lines s of
                    None \<Rightarrow> None
                  | Some n \<Rightarrow> Some (s\<lparr>scroll := min (n - height s) (scroll s + y)\<rparr>))
            else Some s) of
        None \<Rightarrow> None
      | Some s1 \<Rightarrow>
          (let s2 = s1\<lparr>cursor_x := max 0 (min (width s1 - 1) (cursor_x s1 + x))\<rparr>
           in case Console_lines s2 of
                None \<Rightarrow> None
              | Some n \<Rightarrow>
                  Some (s2\<lparr>cursor_y :=
                    max 0 (min (n - scroll s2 - 1) (min (cursor_y s2 + y) (height s2 - 1)))\<rparr>)))"

text \<open>\<^verbatim>\<open>log(*args, details)\<close>; the arguments are taken as strings already.
  \<^verbatim>\<open>details or "No details"\<close> replaces \<^verbatim>\<open>None\<close> and the empty string alike.
  \<open>log_text\<close> is the \<^verbatim>\<open>TextComponent(...)\<close> that the call builds.
  \<^verbatim>\<open>buffer.pop(0)\<close> runs only on a buffer of more than \<open>buffer_size\<close> entries, so it
  never fails.\<close>

definition log_text :: "Console \<Rightarrow> str list \<Rightarrow> str option \<Rightarrow> TextComponent" where
  "log_text s args details =
     \<lparr>content = join_space args,
      details_text = (case details of
                        None \<Rightarrow> lit ''No details''
                      | Some d \<Rightarrow> if d = [] then lit ''No details'' else d),
      max_width = width s\<rparr>"

definition log :: "Console \<Rightarrow> str list \<Rightarrow> str option \<Rightarrow> Console option" where
  "log s args details =
     (let text = log_text s args details;
          s1 = (if int (length (buffer s)) > buffer_size
                then s\<lparr>buffer := tl (buffer s), scroll := scroll s - 1\<rparr> else s);
          s2 = s1\<lparr>buffer := buffer s1 @ [text]\<rparr>
      in case Console_lines s2 of
           None \<Rightarrow> None
         | Some n \<Rightarrow>
             (case (if cursor_y s2 = n - scroll s2 - 2 \<and> cursor_y s2 < height s2 - 1
                    then move_cursor s2 0 1 else Some s2) of
                None \<Rightarrow> None
              | Some s3 \<Rightarrow>
                  (if int (length (buffer s3)) > height s3
                   then (case TextComponent_lines text of
                           None \<Rightarrow> None
                         | Some ls \<Rightarrow> Some (s3\<lparr>scroll := scroll s3 + int (length ls)\<rparr>))
                   else Some s3)))"

text \<open>A caller logging one message after another, without details.\<close>

fun log_all :: "Console \<Rightarrow> str list \<Rightarrow> Console option" where
  "log_all s [] = Some s"
| "log_all s (m # ms) = (case log s [m] None of None \<Rightarrow> None | Some s' \<Rightarrow> log_all s' ms)"

definition clear :: "Console \<Rightarrow> Console" where
  "clear s = s\<lparr>buffer := [], scroll := 0, cursor_x := 0, cursor_y := 0\<rparr>"

text \<open>\<^verbatim>\<open>on_command\<close> ignores its argument and reads \<^verbatim>\<open>self.command\<close>.\<close>

definition on_command :: "Console \<Rightarrow> str \<Rightarrow> Console option" where
  "on_command s cmd =
     log s [lit ''Command executed: /'' @ command s]
       (Some (lit ''O comando /'' @ command s @ lit '' foi executado''))"

text \<open>\<^verbatim>\<open>on_resize\<close>, with the size the window reports.\<close>

definition on_resize :: "Console \<Rightarrow> int \<times> int \<Rightarrow> Console" where
  "on_resize s yx =
     (let s1 = s\<lparr>height := fst (getmaxyx yx), width := snd (getmaxyx yx)\<rparr>;
          s2 = s1\<lparr>scroll := max 0 (int (length (buffer s1)) - height s1)\<rparr>;
          s3 = s2\<lparr>cursor_x := max 0 (min (width s2 - 1) (cursor_x s2))\<rparr>
      in s3\<lparr>cursor_y := max 0 (min (height s3 - 1) (cursor_y s3))\<rparr>)"

section \<open>Rendering\<close>

text \<open>
  The calls \<^verbatim>\<open>render\<close> makes on the curses window, in order. The window itself belongs
  to the terminal driver, which is not part of the repository: every call on it is taken
  to return. What curses does with a call is therefore outside the model, in particular
  the \<^verbatim>\<open>curses.error\<close> of a write or a move outside the window (whole entries and detail
  lines can run past the last row) and the \<^verbatim>\<open>ValueError\<close> of \<^verbatim>\<open>addstr\<close> on a string with
  a NUL character. A result \<open>None\<close> means that \<^verbatim>\<open>render\<close> does not return,
  \<open>Some (Inl e)\<close> that a statement of \<^verbatim>\<open>render\<close> itself raises \<open>e\<close>, and \<open>Some (Inr cs)\<close>
  that \<^verbatim>\<open>render\<close> makes the calls \<open>cs\<close> and raises nothing of its own.
\<close>

datatype call = Clear | Addstr int int str | Move int int | Refresh

text \<open>The \<^verbatim>\<open>addstr\<close> calls for the lines of one entry, the first at row \<open>row\<close>.\<close>

definition addstr_from :: "int \<Rightarrow> str list \<Rightarrow> call list" where
  "addstr_from row ls = map (\<lambda>(k, l). Addstr (row + int k) 0 l) (enumerate 0 ls)"

text \<open>The loop \<^verbatim>\<open>for i in range(self.height)\<close> of the log view; \<open>row\<close> is the counter
  that the source calls \<^verbatim>\<open>lines\<close>.\<close>

fun render_logs :: "Console \<Rightarrow> int list \<Rightarrow> int \<Rightarrow> (exn + call list) option" where
  "render_logs s [] row = Some (Inr [])"
| "render_logs s (i # is) row =
     (if i + scroll s < int (length (buffer s))
      then (case getitem (buffer s) (i + scroll s) of
              Inl e \<Rightarrow> Some (Inl e)
            | Inr t \<Rightarrow>
                (case TextComponent_lines t of
                   None \<Rightarrow> None
                 | Some ls \<Rightarrow>
                     (case render_logs s is (row + int (length ls)) of
                        None \<Rightarrow> None
                      | Some (Inl e) \<Rightarrow> Some (Inl e)
                      | Some (Inr cs) \<Rightarrow> Some (Inr (addstr_from row ls @ cs)))))
      else render_logs s is row)"

text \<open>The detail view: \<^verbatim>\<open>self._get_text(self.current_line).details\<close> raises
  \<^verbatim>\<open>AttributeError\<close> when \<^verbatim>\<open>_get_text\<close> returns \<^verbatim>\<open>None\<close>.\<close>

definition render_details :: "Console \<Rightarrow> (exn + call list) option" where
  "render_details s =
     (case get_text (buffer s) 0 (current_line s) of
        None \<Rightarrow> None
      | Some None \<Rightarrow> Some (Inl AttributeError)
      | Some (Some t) \<Rightarrow>
          (case TextComponent_details t of
             None \<Rightarrow> None
           | Some ds \<Rightarrow> Some (Inr (addstr_from 0 ds))))"

definition bottom_text :: "Console \<Rightarrow> str" where
  "bottom_text s =
     (case state s of
        COMMAND \<Rightarrow> lit ''/'' @ command s
      | DETAILS \<Rightarrow> lit ''[ESC]quit''
      | LOGS \<Rightarrow> lit ''[ESC]quit | [^L]clear | [ENTER]details | [/]command'')"

definition move_call :: "Console \<Rightarrow> call" where
  "move_call s =
     (case state s of
        COMMAND \<Rightarrow> Move (height s) (int (length (command s)) + 1)
      | DETAILS \<Rightarrow> Move (height s - 1) 0
      | LOGS \<Rightarrow> Move (cursor_y s) (cursor_x s))"

definition render :: "Console \<Rightarrow> (exn + call list) option" where
  "render s =
     (case (case state s of
              DETAILS \<Rightarrow> render_details s
            | _ \<Rightarrow> render_logs s (map int [0..<nat (height s)]) 0) of
        None \<Rightarrow> None
      | Some (Inl e) \<Rightarrow> Some (Inl e)
      | Some (Inr cs) \<Rightarrow>
          Some (Inr (Clear # cs @ [Addstr (height s) 0 (bottom_text s), move_call s, Refresh])))"

text \<open>The flattened sequence of the wrapped lines of a list of entries.\<close>

fun flat_lines :: "TextComponent list \<Rightarrow> str list option" where
  "flat_lines [] = Some []"
| "flat_lines (t # ts) =
     (case TextComponent_lines t of
        None \<Rightarrow> None
      | Some ls \<Rightarrow> map_option ((@) ls) (flat_lines ts))"

section \<open>Key presses\<close>

text \<open>
  The \<^verbatim>\<open>match\<close> statement of \<^verbatim>\<open>on_keypress\<close>, case by case in the source's order.
  \<open>None\<close>: it does not return; \<open>Some (Inl e)\<close>: it raises \<open>e\<close>, which both \<^verbatim>\<open>quit\<close>
  (\<^verbatim>\<open>exit()\<close>) and \<^verbatim>\<open>chr\<close> do before the console is changed.
\<close>

definition on_keypress_match ::
  "curses \<Rightarrow> int \<times> int \<Rightarrow> Console \<Rightarrow> int \<Rightarrow> (exn + Console) option" where
  "on_keypress_match ks yx s key =
     (case state s of
        COMMAND \<Rightarrow>
          (if key = ESCAPE then Some (Inr (s\<lparr>state := LOGS, command := []\<rparr>))
           else if key = BACKSPACE
           then (if length (command s) > 0
                 then Some (Inr (s\<lparr>command := slice_to (- 1) (command s)\<rparr>))
                 else Some (Inr s))
           else if key = ENTER
           then (case on_command s (command s) of
                   None \<Rightarrow> None
                 | Some s1 \<Rightarrow> Some (Inr (s1\<lparr>state := LOGS, command := []\<rparr>)))
           else if int (length (command s)) < width s - 2 \<and> 32 \<le> key \<and> key \<le> 126
           then (case chr key of
                   Inl e \<Rightarrow> Some (Inl e)
                 | Inr c \<Rightarrow> Some (Inr (s\<lparr>command := command s @ c\<rparr>)))
           else Some (Inr s))
      | DETAILS \<Rightarrow>
          (if key = ESCAPE then Some (Inr (s\<lparr>state := LOGS\<rparr>)) else Some (Inr s))
      | LOGS \<Rightarrow>
          (if key = ESCAPE then Some (Inl SystemExit)
           else if key = CTRL_L then Some (Inr (clear s))
           else if key = KEY_END ks
           then map_option Inr (move_cursor s 0 (int (length (buffer s))))
           else if key = KEY_HOME ks
           then map_option Inr (move_cursor s 0 (- int (length (buffer s))))
           else if key = ENTER then Some (Inr (s\<lparr>state := DETAILS\<rparr>))
           else if key = SLASH then Some (Inr (s\<lparr>state := COMMAND\<rparr>))
           else if key = KEY_UP ks \<or> key = K then map_option Inr (move_cursor s 0 (- 1))
           else if key = KEY_DOWN ks \<or> key = J then map_option Inr (move_cursor s 0 1)
           else if key = KEY_RESIZE ks then Some (Inr (on_resize s yx))
           else (case chr key of
                   Inl e \<Rightarrow> Some (Inl e)
                 | Inr c \<Rightarrow> map_option Inr (log s [lit ''Key pressed: '' @ c] None))))"

text \<open>
  \<^verbatim>\<open>on_keypress\<close>: the \<^verbatim>\<open>match\<close>, then \<^verbatim>\<open>self.render()\<close>. The result is the console as the
  call leaves it, with the exception that a statement of \<^verbatim>\<open>main.py\<close> raises, if one
  does; \<open>None\<close> when the call does not return. Every field is assigned before
  \<^verbatim>\<open>self.render()\<close> and \<^verbatim>\<open>render\<close> assigns none, so the console of the result is the
  console that the call leaves whatever the window does with the calls of \<^verbatim>\<open>render\<close>.
  The exception component \<open>None\<close> says that the code raises nothing of its own; an
  exception of the terminal driver is not excluded by it.
\<close>

definition on_keypress ::
  "curses \<Rightarrow> int \<times> int \<Rightarrow> Console \<Rightarrow> int \<Rightarrow> (Console \<times> exn option) option" where
  "on_keypress ks yx s key =
     (case on_keypress_match ks yx s key of
        None \<Rightarrow> None
      | Some (Inl e) \<Rightarrow> Some (s, Some e)
      | Some (Inr s') \<Rightarrow>
          (case render s' of
             None \<Rightarrow> None
           | Some (Inl e) \<Rightarrow> Some (s', Some e)
           | Some (Inr cs) \<Rightarrow> Some (s', None)))"

section \<open>Example consoles\<close>

text \<open>The console after \<^verbatim>\<open>log("hello")\<close> on a fresh window of 25 rows and 80 columns.\<close>

definition hello_console :: Console where
  "hello_console =
     \<lparr>state = LOGS,
      buffer = [\<lparr>content = lit ''hello'', details_text = lit ''No details'', max_width = 80\<rparr>],
      width = 80, height = 24, scroll = 0, cursor_x = 0, cursor_y = 0, command = []\<rparr>"

text \<open>The console after \<^verbatim>\<open>log("a")\<close> on a fresh window of 3 rows and 80 columns.\<close>

definition small_console :: Console where
  "small_console =
     \<lparr>state = LOGS,
      buffer = [\<lparr>content = lit ''a'', details_text = lit ''No details'', max_width = 80\<rparr>],
      width = 80, height = 2, scroll = 0, cursor_x = 0, cursor_y = 0, command = []\<rparr>"

text \<open>The console after \<^verbatim>\<open>log("a\nb")\<close>, \<^verbatim>\<open>log("c")\<close> and \<^verbatim>\<open>log("d")\<close> on a fresh window of 3
  rows and 80 columns (\<open>wrapped_console_reached\<close> below).\<close>

definition wrapped_console :: Console where
  "wrapped_console =
     \<lparr>state = LOGS,
      buffer = [\<lparr>content = [97, 10, 98], details_text = lit ''No details'', max_width = 80\<rparr>,
                \<lparr>content = [99], details_text = lit ''No details'', max_width = 80\<rparr>,
                \<lparr>content = [100], details_text = lit ''No details'', max_width = 80\<rparr>],
      width = 80, height = 2, scroll = 1, cursor_x = 0, cursor_y = 1, command = []\<rparr>"

text \<open>Fifty one-line entries on a window of 25 rows, scrolled to the bottom.\<close>

definition fifty_console :: Console where
  "fifty_console =
     \<lparr>state = LOGS,
      buffer = replicate 50 \<lparr>content = lit ''entry'', details_text = lit ''No details'',
                               max_width = 80\<rparr>,
      width = 80, height = 24, scroll = 26, cursor_x = 0, cursor_y = 23, command = []\<rparr>"

text \<open>Three one-line entries on a window of 3 rows, scrolled by one.\<close>

definition abc_console :: Console where
  "abc_console =
     \<lparr>state = LOGS,
      buffer = [\<lparr>content = [97], details_text = lit ''No details'', max_width = 80\<rparr>,
                \<lparr>content = [98], details_text = lit ''No details'', max_width = 80\<rparr>,
                \<lparr>content = [99], details_text = lit ''No details'', max_width = 80\<rparr>],
      width = 80, height = 2, scroll = 1, cursor_x = 0, cursor_y = 1, command = []\<rparr>"

text \<open>The console after \<^verbatim>\<open>log("a")\<close> and \<^verbatim>\<open>log("b")\<close> on a fresh window of 4 rows and 80
  columns.\<close>

definition two_console :: Console where
  "two_console =
     \<lparr>state = LOGS,
      buffer = [\<lparr>content = [97], details_text = lit ''No details'', max_width = 80\<rparr>,
                \<lparr>content = [98], details_text = lit ''No details'', max_width = 80\<rparr>],
      width = 80, height = 3, scroll = 0, cursor_x = 0, cursor_y = 1, command = []\<rparr>"

section \<open>Wrapping\<close>

lemma slice_from_shorter:
  "1 \<le> w \<Longrightarrow> w < int (length line) \<Longrightarrow> length (slice_from w line) < length line"
  by (simp add: slice_from_def)

lemma slice_to_len: "1 \<le> w \<Longrightarrow> int (length (slice_to w line)) \<le> w"
  by (simp add: slice_to_def)

lemma slice_to_from: "slice_to w xs @ slice_from w xs = xs"
  by (simp add: slice_to_def slice_from_def)

text \<open>With a positive width the loop returns: induction on the length of the remainder.\<close>

lemma wrap_while_pos:
  "1 \<le> w \<Longrightarrow> \<exists>ys. wrap_while w line acc = Some (acc @ ys) \<and> ys \<noteq> [] \<and>
      (\<forall>y\<in>set ys. int (length y) \<le> w) \<and> concat ys = line"
proof (induction "length line" arbitrary: line acc rule: less_induct)
  case less
  show ?case
  proof (cases "w < int (length line)")
    case True
    then have sh: "length (slice_from w line) < length line"
      using less.prems by (simp add: slice_from_shorter)
    from less.hyps [OF sh less.prems, of "acc @ [slice_to w line]"]
    obtain ys where ys: "wrap_while w (slice_from w line) (acc @ [slice_to w line]) =
        Some ((acc @ [slice_to w line]) @ ys)" "\<forall>y\<in>set ys. int (length y) \<le> w"
        "concat ys = slice_from w line"
      by blast
    have "wrap_while w line acc = Some (acc @ (slice_to w line # ys))"
      using True ys(1) by (subst wrap_while.simps) simp
    moreover have "\<forall>y\<in>set (slice_to w line # ys). int (length y) \<le> w"
      using ys(2) slice_to_len [OF less.prems] by simp
    moreover have "concat (slice_to w line # ys) = line"
      using ys(3) by (simp add: slice_to_from)
    ultimately show ?thesis by blast
  next
    case False
    then have "wrap_while w line acc = Some (acc @ [line])"
      by (subst wrap_while.simps) simp
    moreover have "\<forall>y\<in>set [line]. int (length y) \<le> w" using False by simp
    ultimately show ?thesis by (intro exI [of _ "[line]"]) simp
  qed
qed

text \<open>Whenever the loop returns, the width was positive, or zero on an empty segment.\<close>

lemma wrap_while_returns:
  "wrap_while w line acc = Some r \<Longrightarrow> 1 \<le> w \<or> (w = 0 \<and> line = [])"
proof (rule wrap_while.raw_induct [where P = "\<lambda>w line acc r. 1 \<le> w \<or> (w = 0 \<and> line = [])"])
  fix f :: "int \<Rightarrow> str \<Rightarrow> str list \<Rightarrow> str list option" and w line lines r
  assume IH: "\<And>w line lines r. f w line lines = Some r \<Longrightarrow> 1 \<le> w \<or> (w = 0 \<and> line = [])"
    and step: "(if w < int (length line)
        then f w (slice_from w line) (lines @ [slice_to w line])
        else Some (lines @ [line])) = Some r"
  show "1 \<le> w \<or> (w = 0 \<and> line = [])"
  proof (cases "w < int (length line)")
    case True
    with step have "f w (slice_from w line) (lines @ [slice_to w line]) = Some r" by simp
    from IH [OF this] have "1 \<le> w \<or> (w = 0 \<and> slice_from w line = [])" .
    then show ?thesis using True by (auto simp: slice_from_def)
  next
    case False
    then show ?thesis by (cases "w = 0") auto
  qed
qed

lemma wrap_while_diverges:
  "w < 0 \<or> (w = 0 \<and> line \<noteq> []) \<Longrightarrow> wrap_while w line acc = None"
  using wrap_while_returns [of w line acc] by (cases "wrap_while w line acc") auto


text \<open>The two cases of the loop, as conditional equations for running it.\<close>

lemma wrap_while_short: "int (length line) \<le> w \<Longrightarrow> wrap_while w line acc = Some (acc @ [line])"
  by (subst wrap_while.simps) simp

lemma wrap_while_long:
  "w < int (length line) \<Longrightarrow>
   wrap_while w line acc = wrap_while w (slice_from w line) (acc @ [slice_to w line])"
  by (subst wrap_while.simps) simp

lemma split_nl_single: "10 \<notin> set s \<Longrightarrow> split_nl s = [s]"
  by (induction s) auto

lemma split_nl_ne: "split_nl s \<noteq> []"
  by (induction s) auto

lemma concat_split_nl: "concat (split_nl s) = filter (\<lambda>c. c \<noteq> 10) s"
proof (induction s)
  case Nil
  show ?case by simp
next
  case (Cons c cs)
  obtain l ls where l: "split_nl cs = l # ls"
    using split_nl_ne [of cs] by (cases "split_nl cs") auto
  with Cons show ?case by auto
qed

lemma wrap_for_pos:
  "1 \<le> w \<Longrightarrow> \<exists>ys. wrap_for w segs acc = Some (acc @ ys) \<and> length segs \<le> length ys \<and>
      (\<forall>y\<in>set ys. int (length y) \<le> w) \<and> concat ys = concat segs"
proof (induction segs arbitrary: acc)
  case Nil
  show ?case by simp
next
  case (Cons seg segs)
  from wrap_while_pos [OF Cons.prems, of seg acc]
  obtain ys where ys: "wrap_while w seg acc = Some (acc @ ys)" "ys \<noteq> []"
      "\<forall>y\<in>set ys. int (length y) \<le> w" "concat ys = seg"
    by blast
  from Cons.IH [OF Cons.prems, of "acc @ ys"]
  obtain zs where zs: "wrap_for w segs (acc @ ys) = Some ((acc @ ys) @ zs)"
      "length segs \<le> length zs" "\<forall>y\<in>set zs. int (length y) \<le> w" "concat zs = concat segs"
    by blast
  have "wrap_for w (seg # segs) acc = Some (acc @ (ys @ zs))"
    using ys(1) zs(1) by simp
  moreover have "length (seg # segs) \<le> length (ys @ zs)"
    using ys(2) zs(2) by (cases ys) auto
  moreover have "\<forall>y\<in>set (ys @ zs). int (length y) \<le> w"
    using ys(3) zs(3) by auto
  moreover have "concat (ys @ zs) = concat (seg # segs)"
    using ys(4) zs(4) by simp
  ultimately show ?case by blast
qed

lemma wrap_pos:
  "1 \<le> w \<Longrightarrow> \<exists>ls. wrap w s = Some ls \<and> ls \<noteq> [] \<and>
      (\<forall>l\<in>set ls. int (length l) \<le> w) \<and> concat ls = filter (\<lambda>c. c \<noteq> 10) s"
proof -
  assume w: "1 \<le> w"
  from wrap_for_pos [OF w, of "split_nl s" "[]"]
  obtain ys where ys: "wrap_for w (split_nl s) [] = Some ys" "length (split_nl s) \<le> length ys"
      "\<forall>y\<in>set ys. int (length y) \<le> w" "concat ys = concat (split_nl s)"
    by auto
  have "ys \<noteq> []" using ys(2) split_nl_ne [of s] by auto
  then show ?thesis using ys by (auto simp: wrap_def concat_split_nl)
qed

lemma wrap_for_returns:
  "wrap_for w segs acc = Some r \<Longrightarrow> segs = [] \<or> 1 \<le> w \<or> (w = 0 \<and> (\<forall>seg\<in>set segs. seg = []))"
proof (induction segs arbitrary: acc)
  case Nil
  show ?case by simp
next
  case (Cons seg segs)
  from Cons.prems obtain acc' where a: "wrap_while w seg acc = Some acc'"
      and b: "wrap_for w segs acc' = Some r"
    by (auto split: option.splits)
  from wrap_while_returns [OF a] Cons.IH [OF b] show ?case by auto
qed

lemma wrap_for_zero:
  "\<forall>seg\<in>set segs. seg = [] \<Longrightarrow> wrap_for 0 segs acc = Some (acc @ segs)"
proof (induction segs arbitrary: acc)
  case Nil
  show ?case by simp
next
  case (Cons seg segs)
  then have "seg = []" by simp
  then have "wrap_while 0 seg acc = Some (acc @ [seg])"
    by (subst wrap_while.simps) simp
  then show ?case using Cons by simp
qed

lemma wrap_neg: "w < 0 \<Longrightarrow> wrap w s = None"
  using wrap_for_returns [of w "split_nl s" "[]"] split_nl_ne [of s]
  by (cases "wrap w s") (auto simp: wrap_def)

lemma all_segments_empty: "(\<forall>seg\<in>set (split_nl s). seg = []) \<longleftrightarrow> (\<forall>c\<in>set s. c = 10)"
proof -
  have "(\<forall>seg\<in>set (split_nl s). seg = []) \<longleftrightarrow> concat (split_nl s) = []"
    by auto
  also have "\<dots> \<longleftrightarrow> (\<forall>c\<in>set s. c = 10)"
    by (simp add: concat_split_nl filter_empty_conv)
  finally show ?thesis .
qed

lemma wrap_zero: "wrap 0 s = None \<longleftrightarrow> (\<exists>c\<in>set s. c \<noteq> 10)"
proof
  assume "wrap 0 s = None"
  then show "\<exists>c\<in>set s. c \<noteq> 10"
    using wrap_for_zero [of "split_nl s" "[]"] all_segments_empty [of s]
    by (auto simp: wrap_def)
next
  assume "\<exists>c\<in>set s. c \<noteq> 10"
  then have "\<not> (\<forall>seg\<in>set (split_nl s). seg = [])"
    using all_segments_empty [of s] by blast
  then show "wrap 0 s = None"
    using wrap_for_returns [of 0 "split_nl s" "[]"] by (cases "wrap 0 s") (auto simp: wrap_def)
qed

text \<open>An entry without a newline that fits the width is one line.\<close>

lemma lines_single:
  "10 \<notin> set (content t) \<Longrightarrow> int (length (content t)) \<le> max_width t \<Longrightarrow>
   TextComponent_lines t = Some [content t]"
  by (simp add: TextComponent_lines_def wrap_def split_nl_single wrap_while_short)

text \<open>
  Claim C3 (wrap soundness). For every text \<open>s\<close> and every width \<open>w \<ge> 1\<close>, the property
  \<^verbatim>\<open>lines\<close> of a text component of that text and width returns; every line it produces
  has at most \<open>w\<close> characters, and the lines concatenated are \<open>s\<close> without its newlines.
\<close>

theorem wrap_soundness:
  "1 \<le> w \<Longrightarrow>
   \<exists>ls. TextComponent_lines \<lparr>content = s, details_text = d, max_width = w\<rparr> = Some ls \<and>
        (\<forall>l\<in>set ls. int (length l) \<le> w) \<and>
        concat ls = filter (\<lambda>c. c \<noteq> 10) s"
  using wrap_pos [of w s] by (auto simp: TextComponent_lines_def)

theorem wrap_soundness_witness:
  "(1::int) \<le> 3 \<and>
   (\<exists>ls. TextComponent_lines
          \<lparr>content = [97, 98, 99, 100, 10, 101], details_text = [], max_width = 3\<rparr> = Some ls \<and>
        (\<forall>l\<in>set ls. int (length l) \<le> 3) \<and>
        concat ls = [97, 98, 99, 100, 101])"
  using wrap_soundness [of 3 "[97, 98, 99, 100, 10, 101]" "[]"] by simp

text \<open>
  Claim C10 (wrap totality for positive widths). With a width \<open>w \<ge> 1\<close>, an iteration of
  the chunking loop leaves a strictly shorter remainder, and both \<^verbatim>\<open>lines\<close> and
  \<^verbatim>\<open>details\<close> return for every text. The guarantee stops at width 0: with a negative
  width neither property ever returns, and with width 0 a property returns exactly when
  its text holds nothing but newlines.
\<close>

theorem wrap_totality:
  "(1 \<le> w \<and> w < int (length (line::str)) \<longrightarrow> length (slice_from w line) < length line) \<and>
   (1 \<le> max_width t \<longrightarrow>
      (\<exists>ls. TextComponent_lines t = Some ls) \<and> (\<exists>ds. TextComponent_details t = Some ds)) \<and>
   (max_width t < 0 \<longrightarrow> TextComponent_lines t = None \<and> TextComponent_details t = None) \<and>
   (max_width t = 0 \<longrightarrow>
      (TextComponent_lines t = None \<longleftrightarrow> (\<exists>c\<in>set (content t). c \<noteq> 10)) \<and>
      (TextComponent_details t = None \<longleftrightarrow> (\<exists>c\<in>set (details_text t). c \<noteq> 10)))"
proof (intro conjI impI)
  assume "1 \<le> w \<and> w < int (length line)"
  then show "length (slice_from w line) < length line"
    by (simp add: slice_from_shorter)
next
  assume "1 \<le> max_width t"
  then show "\<exists>ls. TextComponent_lines t = Some ls"
    using wrap_pos [of "max_width t" "content t"] by (auto simp: TextComponent_lines_def)
next
  assume "1 \<le> max_width t"
  then show "\<exists>ds. TextComponent_details t = Some ds"
    using wrap_pos [of "max_width t" "details_text t"] by (auto simp: TextComponent_details_def)
next
  assume "max_width t < 0"
  then show "TextComponent_lines t = None"
    by (simp add: TextComponent_lines_def wrap_neg)
next
  assume "max_width t < 0"
  then show "TextComponent_details t = None"
    by (simp add: TextComponent_details_def wrap_neg)
next
  assume "max_width t = 0"
  then show "TextComponent_lines t = None \<longleftrightarrow> (\<exists>c\<in>set (content t). c \<noteq> 10)"
    by (simp add: TextComponent_lines_def wrap_zero)
next
  assume "max_width t = 0"
  then show "TextComponent_details t = None \<longleftrightarrow> (\<exists>c\<in>set (details_text t). c \<noteq> 10)"
    by (simp add: TextComponent_details_def wrap_zero)
qed

theorem wrap_totality_witness:
  "length (slice_from 2 [97, 98, 99 :: nat]) < 3 \<and>
   (\<exists>ls. TextComponent_lines \<lparr>content = [97, 98, 99], details_text = [100], max_width = 2\<rparr> = Some ls) \<and>
   (\<exists>ds. TextComponent_details \<lparr>content = [97, 98, 99], details_text = [100], max_width = 2\<rparr> = Some ds) \<and>
   TextComponent_lines \<lparr>content = [], details_text = [], max_width = - 1\<rparr> = None \<and>
   TextComponent_lines \<lparr>content = [97], details_text = [10], max_width = 0\<rparr> = None \<and>
   TextComponent_details \<lparr>content = [97], details_text = [10], max_width = 0\<rparr> \<noteq> None"
  using wrap_totality [of 2 "[97, 98, 99]" "\<lparr>content = [97, 98, 99], details_text = [100], max_width = 2\<rparr>"]
    wrap_totality [of 0 "[]" "\<lparr>content = [], details_text = [], max_width = - 1\<rparr>"]
    wrap_totality [of 0 "[]" "\<lparr>content = [97], details_text = [10], max_width = 0\<rparr>"]
  by simp

section \<open>The console\<close>

lemma lines_Some:
  "1 \<le> max_width t \<Longrightarrow> \<exists>ls. TextComponent_lines t = Some ls \<and> ls \<noteq> []"
  using wrap_pos [of "max_width t" "content t"] by (auto simp: TextComponent_lines_def)

lemma details_Some:
  "1 \<le> max_width t \<Longrightarrow> \<exists>ds. TextComponent_details t = Some ds"
  using wrap_pos [of "max_width t" "details_text t"] by (auto simp: TextComponent_details_def)

lemma sum_lines_Some:
  "\<forall>t\<in>set ts. 1 \<le> max_width t \<Longrightarrow> \<exists>m. sum_lines ts n = Some m \<and> n + int (length ts) \<le> m"
proof (induction ts arbitrary: n)
  case Nil
  show ?case by simp
next
  case (Cons t ts)
  then obtain ls where ls: "TextComponent_lines t = Some ls" "ls \<noteq> []"
    using lines_Some [of t] by auto
  from Cons obtain m where m: "sum_lines ts (n + int (length ls)) = Some m"
      "n + int (length ls) + int (length ts) \<le> m"
    by fastforce
  have "1 \<le> length ls" using ls(2) by (cases ls) auto
  then show ?case using ls(1) m by auto
qed

lemma Console_lines_Some:
  "\<forall>t\<in>set (buffer s). 1 \<le> max_width t \<Longrightarrow>
   \<exists>n. Console_lines s = Some n \<and> int (length (buffer s)) \<le> n"
  using sum_lines_Some [of "buffer s" 0] by (simp add: Console_lines_def)

lemma get_text_result:
  "\<forall>t\<in>set ts. 1 \<le> max_width t \<Longrightarrow> sum_lines ts c = Some n \<Longrightarrow>
   (if ts \<noteq> [] \<and> line < n then \<exists>t\<in>set ts. get_text ts c line = Some (Some t)
    else get_text ts c line = Some None)"
proof (induction ts arbitrary: c)
  case Nil
  show ?case by simp
next
  case (Cons t ts)
  then obtain ls where ls: "TextComponent_lines t = Some ls" "ls \<noteq> []"
    using lines_Some [of t] by auto
  from Cons.prems ls have n: "sum_lines ts (c + int (length ls)) = Some n" by simp
  from Cons.prems have w: "\<forall>t\<in>set ts. 1 \<le> max_width t" by simp
  from sum_lines_Some [OF w, of "c + int (length ls)"] n
  have le: "c + int (length ls) + int (length ts) \<le> n" by simp
  show ?case
  proof (cases "c + int (length ls) > line")
    case True
    then show ?thesis using ls le by simp
  next
    case False
    note IH = Cons.IH [OF w n]
    show ?thesis
    proof (cases "ts = []")
      case True
      then show ?thesis using False ls n by simp
    next
      case nonempty: False
      then show ?thesis using False ls IH by auto
    qed
  qed
qed

lemma render_details_result:
  assumes "\<forall>t\<in>set (buffer s). 1 \<le> max_width t" and "Console_lines s = Some n"
  shows "if buffer s \<noteq> [] \<and> current_line s < n then \<exists>cs. render_details s = Some (Inr cs)
         else render_details s = Some (Inl AttributeError)"
proof (cases "buffer s \<noteq> [] \<and> current_line s < n")
  case True
  with get_text_result [OF assms(1), of 0 n "current_line s"] assms(2)
  obtain t where t: "t \<in> set (buffer s)" "get_text (buffer s) 0 (current_line s) = Some (Some t)"
    by (auto simp: Console_lines_def)
  with assms(1) obtain ds where "TextComponent_details t = Some ds"
    using details_Some [of t] by auto
  with t True show ?thesis by (simp add: render_details_def)
next
  case False
  with get_text_result [OF assms(1), of 0 n "current_line s"] assms(2)
  have "get_text (buffer s) 0 (current_line s) = Some None"
    by (auto simp: Console_lines_def)
  with False show ?thesis by (simp add: render_details_def)
qed

lemma render_logs_result:
  assumes "\<forall>t\<in>set (buffer s). 1 \<le> max_width t" and "\<forall>i\<in>set is. 0 \<le> i"
    and "- int (length (buffer s)) \<le> scroll s"
  shows "\<exists>cs. render_logs s is row = Some (Inr cs)"
  using assms(2)
proof (induction "is" arbitrary: row)
  case Nil
  show ?case by simp
next
  case (Cons i "is")
  show ?case
  proof (cases "i + scroll s < int (length (buffer s))")
    case False
    then show ?thesis using Cons by simp
  next
    case True
    define k where "k = (if i + scroll s < 0 then int (length (buffer s)) + (i + scroll s) else i + scroll s)"
    have k: "0 \<le> k" "k < int (length (buffer s))"
      using True Cons.prems assms(3) by (auto simp: k_def)
    then have g: "getitem (buffer s) (i + scroll s) = Inr (buffer s ! nat k)"
      by (simp add: getitem_def k_def Let_def)
    have "buffer s ! nat k \<in> set (buffer s)" using k by simp
    then obtain ls where ls: "TextComponent_lines (buffer s ! nat k) = Some ls"
      using assms(1) lines_Some by blast
    from Cons obtain cs where "render_logs s is (row + int (length ls)) = Some (Inr cs)"
      by fastforce
    then show ?thesis using True g ls by simp
  qed
qed

lemma render_not_details:
  assumes "\<forall>t\<in>set (buffer s). 1 \<le> max_width t" and "state s \<noteq> DETAILS"
    and "- int (length (buffer s)) \<le> scroll s"
  shows "\<exists>cs. render s = Some (Inr cs)"
proof -
  from render_logs_result [OF assms(1) _ assms(3), of "map int [0..<nat (height s)]" 0]
  obtain cs where "render_logs s (map int [0..<nat (height s)]) 0 = Some (Inr cs)" by auto
  then show ?thesis using assms(2) by (cases "state s") (simp_all add: render_def)
qed

lemma render_logs_terminates:
  assumes "\<forall>t\<in>set (buffer s). 1 \<le> max_width t"
  shows "render_logs s is row \<noteq> None"
proof (induction "is" arbitrary: row)
  case Nil
  show ?case by simp
next
  case (Cons i "is")
  show ?case
  proof (cases "i + scroll s < int (length (buffer s))")
    case False
    then show ?thesis using Cons by simp
  next
    case True
    show ?thesis
    proof (cases "getitem (buffer s) (i + scroll s)")
      case (Inl e)
      then show ?thesis using True by simp
    next
      case (Inr t)
      then have "t \<in> set (buffer s)"
        by (auto simp: getitem_def Let_def split: if_splits)
      then obtain ls where ls: "TextComponent_lines t = Some ls"
        using assms lines_Some by blast
      then show ?thesis using True Inr Cons [of "row + int (length ls)"]
        by (auto split: option.splits sum.splits)
    qed
  qed
qed

lemma render_terminates:
  assumes "\<forall>t\<in>set (buffer s). 1 \<le> max_width t"
  shows "\<exists>r. render s = Some r"
proof (cases "state s = DETAILS")
  case True
  obtain n where "Console_lines s = Some n" using Console_lines_Some [OF assms] by blast
  from render_details_result [OF assms this] True show ?thesis
    by (auto simp: render_def split: if_splits)
next
  case False
  from render_logs_terminates [OF assms, of "map int [0..<nat (height s)]" 0]
  obtain r where "render_logs s (map int [0..<nat (height s)]) 0 = Some r" by auto
  then show ?thesis using False
    by (cases "state s"; cases r) (simp_all add: render_def)
qed


lemma move_cursor_eq:
  assumes "Console_lines s = Some n"
  shows "move_cursor s x y =
    Some (s\<lparr>scroll := (if cursor_y s + y < 0 then max 0 (scroll s + y)
                        else if cursor_y s + y \<ge> height s then min (n - height s) (scroll s + y)
                        else scroll s),
            cursor_x := max 0 (min (width s - 1) (cursor_x s + x)),
            cursor_y := max 0 (min (n - (if cursor_y s + y < 0 then max 0 (scroll s + y)
                        else if cursor_y s + y \<ge> height s then min (n - height s) (scroll s + y)
                        else scroll s) - 1) (min (cursor_y s + y) (height s - 1)))\<rparr>)"
proof -
  have upd: "\<And>f g. Console_lines (s\<lparr>scroll := f, cursor_x := g\<rparr>) = Some n"
    "\<And>g. Console_lines (s\<lparr>cursor_x := g\<rparr>) = Some n"
    using assms by (simp_all add: Console_lines_def)
  show ?thesis
    using assms upd by (simp add: move_cursor_def Let_def)
qed

lemma log_result:
  assumes w: "1 \<le> width s" and b: "\<forall>t\<in>set (buffer s). 1 \<le> max_width t"
  shows "\<exists>s'. log s args details = Some s' \<and>
     buffer s' = (if int (length (buffer s)) > buffer_size then tl (buffer s) else buffer s)
                 @ [log_text s args details] \<and>
     state s' = state s \<and> command s' = command s \<and> width s' = width s \<and>
     height s' = height s \<and> (0 \<le> scroll s \<longrightarrow> - 1 \<le> scroll s')"
proof -
  define tc where "tc = log_text s args details"
  define s1 where "s1 = (if int (length (buffer s)) > buffer_size
                then s\<lparr>buffer := tl (buffer s), scroll := scroll s - 1\<rparr> else s)"
  define s2 where "s2 = s1\<lparr>buffer := buffer s1 @ [tc]\<rparr>"
  have tw: "1 \<le> max_width tc" using w by (simp add: tc_def log_text_def)
  have "set (buffer s1) \<subseteq> set (buffer s)"
    by (cases "buffer s") (auto simp: s1_def)
  then have b2: "\<forall>t\<in>set (buffer s2). 1 \<le> max_width t"
    using b tw by (auto simp: s2_def)
  obtain n where n: "Console_lines s2 = Some n"
    using Console_lines_Some [OF b2] by blast
  obtain ls where ls: "TextComponent_lines tc = Some ls"
    using lines_Some [OF tw] by blast
  define s3 where "s3 = (if cursor_y s2 = n - scroll s2 - 2 \<and> cursor_y s2 < height s2 - 1
                    then the (move_cursor s2 0 1) else s2)"
  have m: "(if cursor_y s2 = n - scroll s2 - 2 \<and> cursor_y s2 < height s2 - 1
                    then move_cursor s2 0 1 else Some s2) = Some s3"
    by (simp add: s3_def move_cursor_eq [OF n])
  have s3: "buffer s3 = buffer s2" "state s3 = state s2" "command s3 = command s2"
    "width s3 = width s2" "height s3 = height s2" "scroll s2 \<le> scroll s3"
    by (auto simp: s3_def move_cursor_eq [OF n])
  have s2: "buffer s2 = (if int (length (buffer s)) > buffer_size then tl (buffer s) else buffer s) @ [tc]"
    "state s2 = state s" "command s2 = command s" "width s2 = width s" "height s2 = height s"
    "scroll s - 1 \<le> scroll s2"
    by (auto simp: s2_def s1_def)
  define s' where "s' = (if int (length (buffer s3)) > height s3
                   then s3\<lparr>scroll := scroll s3 + int (length ls)\<rparr> else s3)"
  have "log s args details =
      (case Console_lines s2 of
           None \<Rightarrow> None
         | Some n \<Rightarrow>
             (case (if cursor_y s2 = n - scroll s2 - 2 \<and> cursor_y s2 < height s2 - 1
                    then move_cursor s2 0 1 else Some s2) of
                None \<Rightarrow> None
              | Some s3 \<Rightarrow>
                  (if int (length (buffer s3)) > height s3
                   then (case TextComponent_lines tc of
                           None \<Rightarrow> None
                         | Some ls \<Rightarrow> Some (s3\<lparr>scroll := scroll s3 + int (length ls)\<rparr>))
                   else Some s3)))"
    unfolding log_def Let_def s2_def s1_def tc_def ..
  also have "\<dots> = Some s'"
    by (simp only: n m ls option.case s'_def if_distrib [of Some, symmetric])
  finally have "log s args details = Some s'" .
  moreover have "buffer s' = buffer s2" "state s' = state s" "command s' = command s"
    "width s' = width s" "height s' = height s" "scroll s3 \<le> scroll s'"
    using s3 s2 by (auto simp: s'_def)
  ultimately show ?thesis using s2 s3 by (auto simp: tc_def)
qed


lemma on_keypress_render:
  assumes "on_keypress_match ks yx s key = Some (Inr s')"
    and "\<forall>t\<in>set (buffer s'). 1 \<le> max_width t" and "state s' \<noteq> DETAILS"
  shows "\<exists>e. on_keypress ks yx s key = Some (s', e) \<and>
           (- int (length (buffer s')) \<le> scroll s' \<longrightarrow> e = None)"
proof -
  obtain r where r: "render s' = Some r" using render_terminates [OF assms(2)] by blast
  show ?thesis
  proof (cases "- int (length (buffer s')) \<le> scroll s'")
    case True
    from render_not_details [OF assms(2,3) True] assms(1) show ?thesis
      by (auto simp: on_keypress_def)
  next
    case False
    then show ?thesis using r assms(1) by (cases r) (auto simp: on_keypress_def)
  qed
qed

text \<open>
  Claim C8 (Escape closure). On a buffer whose entries were created with a width of at
  least 1, one Escape key press takes the Details mode to Browsing and takes the
  CommandEntry mode to Browsing with the command text cleared; the key handler comes
  back, and the code raises nothing of its own unless the scroll offset lies below minus
  the buffer length.
  In Browsing the Escape key ends the session instead: \<^verbatim>\<open>quit\<close> raises \<^verbatim>\<open>SystemExit\<close>
  and the console is left as it was.
\<close>

theorem escape_closure:
  assumes "\<forall>t\<in>set (buffer s). 1 \<le> max_width t"
  shows "(state s = DETAILS \<longrightarrow>
            (\<exists>e. on_keypress ks yx s ESCAPE = Some (s\<lparr>state := LOGS\<rparr>, e) \<and>
                 (- int (length (buffer s)) \<le> scroll s \<longrightarrow> e = None))) \<and>
         (state s = COMMAND \<longrightarrow>
            (\<exists>e. on_keypress ks yx s ESCAPE = Some (s\<lparr>state := LOGS, command := []\<rparr>, e) \<and>
                 (- int (length (buffer s)) \<le> scroll s \<longrightarrow> e = None))) \<and>
         (state s = LOGS \<longrightarrow> on_keypress ks yx s ESCAPE = Some (s, Some SystemExit))"
proof (intro conjI impI)
  assume st: "state s = DETAILS"
  then have "on_keypress_match ks yx s ESCAPE = Some (Inr (s\<lparr>state := LOGS\<rparr>))"
    by (simp add: on_keypress_match_def)
  from on_keypress_render [OF this] assms
  show "\<exists>e. on_keypress ks yx s ESCAPE = Some (s\<lparr>state := LOGS\<rparr>, e) \<and>
                 (- int (length (buffer s)) \<le> scroll s \<longrightarrow> e = None)"
    by simp
next
  assume st: "state s = COMMAND"
  then have "on_keypress_match ks yx s ESCAPE = Some (Inr (s\<lparr>state := LOGS, command := []\<rparr>))"
    by (simp add: on_keypress_match_def)
  from on_keypress_render [OF this] assms
  show "\<exists>e. on_keypress ks yx s ESCAPE = Some (s\<lparr>state := LOGS, command := []\<rparr>, e) \<and>
                 (- int (length (buffer s)) \<le> scroll s \<longrightarrow> e = None)"
    by simp
next
  assume "state s = LOGS"
  then show "on_keypress ks yx s ESCAPE = Some (s, Some SystemExit)"
    by (simp add: on_keypress_def on_keypress_match_def)
qed

theorem escape_closure_witness:
  "on_keypress ncurses (25, 80) (hello_console\<lparr>state := DETAILS\<rparr>) ESCAPE
     = Some (hello_console, None) \<and>
   on_keypress ncurses (25, 80) (hello_console\<lparr>state := COMMAND, command := lit ''foo''\<rparr>) ESCAPE
     = Some (hello_console, None) \<and>
   on_keypress ncurses (25, 80) hello_console ESCAPE = Some (hello_console, Some SystemExit)"
  using escape_closure [of "hello_console\<lparr>state := DETAILS\<rparr>" ncurses "(25, 80)"]
    escape_closure [of "hello_console\<lparr>state := COMMAND, command := lit ''foo''\<rparr>" ncurses "(25, 80)"]
    escape_closure [of "hello_console" ncurses "(25, 80)"]
  by (simp add: hello_console_def)

text \<open>
  Claim C9 (Details mode frame property). In Details mode a key other than Escape leaves
  the whole console as it was: mode, buffer, scroll offset, cursor and command text. The
  handler always comes back; the rendering that follows the key raises
  \<^verbatim>\<open>AttributeError\<close> exactly when the cursor line \<open>cursor_y + scroll\<close> is on no entry.
\<close>

theorem details_frame:
  assumes "state s = DETAILS" and "key \<noteq> ESCAPE" and "\<forall>t\<in>set (buffer s). 1 \<le> max_width t"
  shows "\<exists>n. Console_lines s = Some n \<and>
           on_keypress ks yx s key =
             Some (s, if buffer s \<noteq> [] \<and> current_line s < n then None else Some AttributeError)"
proof -
  obtain n where n: "Console_lines s = Some n" using Console_lines_Some [OF assms(3)] by blast
  have m: "on_keypress_match ks yx s key = Some (Inr s)"
    using assms(1,2) by (simp add: on_keypress_match_def)
  have "on_keypress ks yx s key =
             Some (s, if buffer s \<noteq> [] \<and> current_line s < n then None else Some AttributeError)"
    using render_details_result [OF assms(3) n] m assms(1)
    by (auto simp: on_keypress_def render_def split: if_splits)
  with n show ?thesis by blast
qed

theorem details_frame_witness:
  "state (hello_console\<lparr>state := DETAILS\<rparr>) = DETAILS \<and> 106 \<noteq> ESCAPE \<and>
   Console_lines (hello_console\<lparr>state := DETAILS\<rparr>) = Some 1 \<and>
   on_keypress ncurses (25, 80) (hello_console\<lparr>state := DETAILS\<rparr>) 106
     = Some (hello_console\<lparr>state := DETAILS\<rparr>, None)"
  using details_frame [of "hello_console\<lparr>state := DETAILS\<rparr>" 106 ncurses "(25, 80)"]
  by (simp add: hello_console_def ESCAPE_def current_line_def Console_lines_def
      TextComponent_lines_def wrap_def lit_def wrap_while.simps)


lemma on_keypress_log:
  assumes m: "on_keypress_match ks yx s key = map_option (\<lambda>c. Inr (f c)) (log s args details)"
    and f: "\<And>c. buffer (f c) = buffer c \<and> scroll (f c) = scroll c"
    and st: "\<And>c. state c = state s \<Longrightarrow> state (f c) \<noteq> DETAILS"
    and w: "1 \<le> width s" and b: "\<forall>t\<in>set (buffer s). 1 \<le> max_width t"
  shows "\<exists>s' e. log s args details = Some s' \<and> on_keypress ks yx s key = Some (f s', e) \<and>
     buffer s' = (if int (length (buffer s)) > buffer_size then tl (buffer s) else buffer s)
                 @ [log_text s args details] \<and>
     (0 \<le> scroll s \<longrightarrow> e = None)"
proof -
  from log_result [OF w b, of args details]
  obtain s' where s': "log s args details = Some s'"
      "buffer s' = (if int (length (buffer s)) > buffer_size then tl (buffer s) else buffer s)
                 @ [log_text s args details]"
      "0 \<le> scroll s \<longrightarrow> - 1 \<le> scroll s'" "state s' = state s"
    by blast
  have "set (buffer s') \<subseteq> insert (log_text s args details) (set (buffer s))"
    using s'(2) by (cases "buffer s") auto
  moreover have "1 \<le> max_width (log_text s args details)"
    using w by (simp add: log_text_def)
  ultimately have b': "\<forall>t\<in>set (buffer (f s')). 1 \<le> max_width t"
    using b f by auto
  have "on_keypress_match ks yx s key = Some (Inr (f s'))"
    using m s'(1) by simp
  from on_keypress_render [OF this b' st [OF s'(4)]] f
  obtain e where e: "on_keypress ks yx s key = Some (f s', e)"
      "- int (length (buffer s')) \<le> scroll s' \<longrightarrow> e = None"
    by auto
  have "0 \<le> scroll s \<longrightarrow> e = None"
    using e(2) s'(2,3) by auto
  with s' e show ?thesis by blast
qed

text \<open>
  Claim C7 (command submission). In CommandEntry mode, on a window at least one column
  wide, the Enter key appends exactly one entry, whose message is
  \<^verbatim>\<open>"Command executed: /"\<close> followed by the command text, returns the mode to Browsing
  and clears the command text, for every command text. The entry goes behind the buffer
  (less its oldest entry when the buffer was over its size); the handler comes back,
  and the code raises nothing of its own when the scroll offset was not negative.
\<close>

theorem command_submission:
  assumes "state s = COMMAND" and "1 \<le> width s" and "\<forall>t\<in>set (buffer s). 1 \<le> max_width t"
  shows "\<exists>s' e t. on_keypress ks yx s ENTER = Some (s', e) \<and>
     state s' = LOGS \<and> command s' = [] \<and>
     buffer s' = (if int (length (buffer s)) > buffer_size then tl (buffer s) else buffer s) @ [t] \<and>
     content t = lit ''Command executed: /'' @ command s \<and>
     (0 \<le> scroll s \<longrightarrow> e = None)"
proof -
  have "on_keypress_match ks yx s ENTER =
      map_option (\<lambda>c. Inr (c\<lparr>state := LOGS, command := []\<rparr>))
        (log s [lit ''Command executed: /'' @ command s]
           (Some (lit ''O comando /'' @ command s @ lit '' foi executado'')))"
    using assms(1)
    by (simp add: on_keypress_match_def on_command_def ENTER_def ESCAPE_def BACKSPACE_def
        split: option.splits)
  from on_keypress_log [OF this _ _ assms(2,3)]
  show ?thesis by (fastforce simp: log_text_def)
qed

theorem command_submission_witness:
  "\<exists>s' e t. on_keypress ncurses (25, 80) (hello_console\<lparr>state := COMMAND, command := lit ''foo''\<rparr>) ENTER
       = Some (s', e) \<and>
     state s' = LOGS \<and> command s' = [] \<and> buffer s' = buffer hello_console @ [t] \<and>
     content t = lit ''Command executed: /foo'' \<and> e = None"
  using command_submission [of "hello_console\<lparr>state := COMMAND, command := lit ''foo''\<rparr>"
      ncurses "(25, 80)"]
  by (simp add: hello_console_def buffer_size_def lit_def)

text \<open>
  Claim C6, amended (key codes without a binding). In Details mode every key code other
  than Escape, and in CommandEntry mode every key code other than Escape, Backspace and
  Enter that is outside 32..126, is a no-op: the \<^verbatim>\<open>match\<close> statement completes without
  raising, and buffer, scroll, cursor, mode and command text are unchanged when the call
  ends. In Browsing mode a key code without a binding is not a no-op: on a window at
  least one column wide, for every key code in \<^verbatim>\<open>range(0x110000)\<close> that is bound to no
  action the \<^verbatim>\<open>match\<close> statement completes with the entry
  \<^verbatim>\<open>"Key pressed: " + chr(key)\<close> appended to the buffer. Nothing is said of what the
  render after the key raises.
\<close>

theorem unbound_keys:
  assumes "\<forall>t\<in>set (buffer s). 1 \<le> max_width t"
  shows "(state s = DETAILS \<and> key \<noteq> ESCAPE \<longrightarrow>
            on_keypress_match ks yx s key = Some (Inr s) \<and>
            (\<exists>e. on_keypress ks yx s key = Some (s, e))) \<and>
         (state s = COMMAND \<and> key \<noteq> ESCAPE \<and> key \<noteq> BACKSPACE \<and> key \<noteq> ENTER \<and>
          \<not> (32 \<le> key \<and> key \<le> 126) \<longrightarrow>
            on_keypress_match ks yx s key = Some (Inr s) \<and>
            (\<exists>e. on_keypress ks yx s key = Some (s, e))) \<and>
         (state s = LOGS \<and> 1 \<le> width s \<and> 0 \<le> key \<and> key < 1114112 \<and>
          key \<notin> {ESCAPE, CTRL_L, KEY_END ks, KEY_HOME ks, ENTER, SLASH,
                  KEY_UP ks, K, KEY_DOWN ks, J, KEY_RESIZE ks} \<longrightarrow>
            (\<exists>s'. on_keypress_match ks yx s key = Some (Inr s') \<and>
                 (\<exists>e. on_keypress ks yx s key = Some (s', e)) \<and>
                 buffer s' =
                   (if int (length (buffer s)) > buffer_size then tl (buffer s) else buffer s) @
                   [log_text s [lit ''Key pressed: '' @ [nat key]] None]))"
proof (intro conjI impI)
  assume a: "state s = DETAILS \<and> key \<noteq> ESCAPE"
  then show m: "on_keypress_match ks yx s key = Some (Inr s)"
    by (simp add: on_keypress_match_def)
  obtain r where "render s = Some r" using render_terminates [OF assms] by blast
  with m show "\<exists>e. on_keypress ks yx s key = Some (s, e)"
    by (cases r) (simp_all add: on_keypress_def)
next
  assume a: "state s = COMMAND \<and> key \<noteq> ESCAPE \<and> key \<noteq> BACKSPACE \<and> key \<noteq> ENTER \<and>
          \<not> (32 \<le> key \<and> key \<le> 126)"
  then show m: "on_keypress_match ks yx s key = Some (Inr s)"
    by (auto simp: on_keypress_match_def)
  obtain r where "render s = Some r" using render_terminates [OF assms] by blast
  with m show "\<exists>e. on_keypress ks yx s key = Some (s, e)"
    by (cases r) (simp_all add: on_keypress_def)
next
  assume a: "state s = LOGS \<and> 1 \<le> width s \<and> 0 \<le> key \<and> key < 1114112 \<and>
          key \<notin> {ESCAPE, CTRL_L, KEY_END ks, KEY_HOME ks, ENTER, SLASH,
                  KEY_UP ks, K, KEY_DOWN ks, J, KEY_RESIZE ks}"
  then have m: "on_keypress_match ks yx s key =
      map_option (\<lambda>c. Inr (id c)) (log s [lit ''Key pressed: '' @ [nat key]] None)"
    by (simp add: on_keypress_match_def chr_def)
  from on_keypress_log [OF m _ _ _ assms] a
  obtain s' e where s': "log s [lit ''Key pressed: '' @ [nat key]] None = Some s'"
      "on_keypress ks yx s key = Some (s', e)"
      "buffer s' =
         (if int (length (buffer s)) > buffer_size then tl (buffer s) else buffer s) @
         [log_text s [lit ''Key pressed: '' @ [nat key]] None]"
    by (auto simp only: id_apply)
  have "on_keypress_match ks yx s key = Some (Inr s')"
    using m s'(1) by simp
  with s'(2,3)
  show "\<exists>s'. on_keypress_match ks yx s key = Some (Inr s') \<and>
                 (\<exists>e. on_keypress ks yx s key = Some (s', e)) \<and>
                 buffer s' =
                   (if int (length (buffer s)) > buffer_size then tl (buffer s) else buffer s) @
                   [log_text s [lit ''Key pressed: '' @ [nat key]] None]"
    by blast
qed

theorem unbound_keys_witness:
  "(on_keypress_match ncurses (3, 80) (small_console\<lparr>state := DETAILS\<rparr>) 106
      = Some (Inr (small_console\<lparr>state := DETAILS\<rparr>)) \<and>
    (\<exists>e. on_keypress ncurses (3, 80) (small_console\<lparr>state := DETAILS\<rparr>) 106
        = Some (small_console\<lparr>state := DETAILS\<rparr>, e))) \<and>
   (on_keypress_match ncurses (3, 80) (small_console\<lparr>state := COMMAND\<rparr>) 7
      = Some (Inr (small_console\<lparr>state := COMMAND\<rparr>)) \<and>
    (\<exists>e. on_keypress ncurses (3, 80) (small_console\<lparr>state := COMMAND\<rparr>) 7
        = Some (small_console\<lparr>state := COMMAND\<rparr>, e))) \<and>
   (\<exists>s'. on_keypress_match ncurses (3, 80) small_console 7 = Some (Inr s') \<and>
      (\<exists>e. on_keypress ncurses (3, 80) small_console 7 = Some (s', e)) \<and>
      buffer s' = buffer small_console @
        [\<lparr>content = lit ''Key pressed: '' @ [7], details_text = lit ''No details'',
          max_width = 80\<rparr>])"
  using unbound_keys [of "small_console\<lparr>state := DETAILS\<rparr>" 106 ncurses "(3, 80)"]
    unbound_keys [of "small_console\<lparr>state := COMMAND\<rparr>" 7 ncurses "(3, 80)"]
    unbound_keys [of "small_console" 7 ncurses "(3, 80)"]
  by (simp add: small_console_def ESCAPE_def BACKSPACE_def ENTER_def CTRL_L_def SLASH_def
      J_def K_def ncurses_def buffer_size_def log_text_def)

text \<open>
  The claim as stated fails in Browsing mode. Key code 7 (Ctrl-G) has no binding and is
  not printable, yet the key press appends an entry and moves the cursor; and the key
  code \<open>0x110000\<close>, which is out of the range of \<^verbatim>\<open>chr\<close>, raises \<^verbatim>\<open>ValueError\<close>.
\<close>

theorem unbound_keys_counterexample:
  "on_keypress ncurses (3, 80) small_console 7 =
     Some (\<lparr>state = LOGS,
            buffer = [\<lparr>content = lit ''a'', details_text = lit ''No details'', max_width = 80\<rparr>,
                      \<lparr>content = lit ''Key pressed: '' @ [7], details_text = lit ''No details'',
                        max_width = 80\<rparr>],
            width = 80, height = 2, scroll = 0, cursor_x = 0, cursor_y = 1, command = []\<rparr>,
           None) \<and>
   on_keypress ncurses (3, 80) small_console 1114112 = Some (small_console, Some ValueError)"
  (is "_ = Some (?s', None) \<and> _")
proof -
  have l: "log small_console [lit ''Key pressed: '' @ [7]] None = Some ?s'"
    by (simp add: small_console_def log_def log_text_def Let_def Console_lines_def lines_single
        move_cursor_def lit_def buffer_size_def)
  have r: "\<exists>cs. render ?s' = Some (Inr cs)"
    by (simp add: render_def getitem_def lines_single lit_def numeral_2_eq_2)
  have st: "state small_console = LOGS"
    by (simp add: small_console_def)
  have m: "on_keypress_match ncurses (3, 80) small_console 7 = Some (Inr ?s')"
    by (simp add: on_keypress_match_def st l chr_def ncurses_def ESCAPE_def ENTER_def
        CTRL_L_def SLASH_def J_def K_def)
  have v: "on_keypress_match ncurses (3, 80) small_console 1114112 = Some (Inl ValueError)"
    by (simp add: on_keypress_match_def st chr_def ncurses_def ESCAPE_def ENTER_def
        CTRL_L_def SLASH_def J_def K_def)
  from r m v show ?thesis
    by (auto simp: on_keypress_def)
qed

section \<open>Resizing\<close>

lemma lines_two: "TextComponent_lines \<lparr>content = [97, 10, 98], details_text = d, max_width = 80\<rparr>
    = Some [[97], [98]]"
  by (simp add: TextComponent_lines_def wrap_def wrap_while_short)

lemma sum_lines_one_line:
  "\<forall>t\<in>set ts. \<exists>l. TextComponent_lines t = Some [l] \<Longrightarrow>
   sum_lines ts n = Some (n + int (length ts))"
  by (induction ts arbitrary: n) auto

text \<open>
  What \<^verbatim>\<open>on_resize\<close> does: it takes the new height and width from the window and sets
  the scroll offset to \<open>max 0 (number of buffer entries - new height)\<close>; the buffer is left
  as it is. When every entry wraps to a single line the number of entries is the total
  number of lines. The cursor is clamped into the new bounds when the new height and
  width are at least 1. The instance below is the resize from height 24 to height 10
  with 50 one-line entries: scroll offset 40 and a cursor row in 0..9.
\<close>

theorem on_resize_entries:
  "height (on_resize s yx) = fst yx - 1 \<and> width (on_resize s yx) = snd yx \<and>
   buffer (on_resize s yx) = buffer s \<and>
   scroll (on_resize s yx) = max 0 (int (length (buffer s)) - (fst yx - 1)) \<and>
   ((\<forall>t\<in>set (buffer s). \<exists>l. TextComponent_lines t = Some [l]) \<longrightarrow>
      Console_lines (on_resize s yx) = Some (int (length (buffer s)))) \<and>
   (2 \<le> fst yx \<longrightarrow>
      0 \<le> cursor_y (on_resize s yx) \<and> cursor_y (on_resize s yx) < height (on_resize s yx)) \<and>
   (1 \<le> snd yx \<longrightarrow>
      0 \<le> cursor_x (on_resize s yx) \<and> cursor_x (on_resize s yx) < width (on_resize s yx))"
  by (auto simp: on_resize_def getmaxyx_def Let_def Console_lines_def sum_lines_one_line)

theorem on_resize_entries_witness:
  "height fifty_console = 24 \<and> length (buffer fifty_console) = 50 \<and>
   height (on_resize fifty_console (11, 80)) = 10 \<and>
   Console_lines (on_resize fifty_console (11, 80)) = Some 50 \<and>
   scroll (on_resize fifty_console (11, 80)) = 40 \<and>
   0 \<le> cursor_y (on_resize fifty_console (11, 80)) \<and>
   cursor_y (on_resize fifty_console (11, 80)) \<le> 9"
  using on_resize_entries [of fifty_console "(11, 80)"]
  by (simp add: fifty_console_def lines_single lit_def)

text \<open>
  Claim C4 (resize re-pins to the bottom of the content), at an input where the code
  breaks it. The claim sets the scroll offset to \<open>max 0 (total lines - new height)\<close>;
  \<^verbatim>\<open>on_resize\<close> counts buffer entries where \<^verbatim>\<open>_move_cursor\<close> counts lines. With 3 entries
  of 4 lines in all and a new height of 1, the scroll offset becomes 2 and not
  \<open>max 0 (4 - 1) = 3\<close>.
\<close>

theorem on_resize_counts_entries:
  "Console_lines (on_resize wrapped_console (2, 80)) = Some 4 \<and>
   height (on_resize wrapped_console (2, 80)) = 1 \<and>
   scroll (on_resize wrapped_console (2, 80)) = 2 \<and>
   scroll (on_resize wrapped_console (2, 80)) \<noteq> max 0 (4 - 1)"
  by (simp add: wrapped_console_def Console_lines_def lines_two lines_single
      on_resize_def getmaxyx_def)

section \<open>The log view\<close>

lemma enumerate_shift:
  "map (\<lambda>(k, l). f (n + k) l) (enumerate m ys) = map (\<lambda>(k, l). f k l) (enumerate (n + m) ys)"
  by (induction ys arbitrary: m) (simp_all add: add_Suc_right [symmetric] del: add_Suc_right)

lemma addstr_from_append:
  "addstr_from row (xs @ ys) = addstr_from row xs @ addstr_from (row + int (length xs)) ys"
  using enumerate_shift [of "\<lambda>k l. Addstr (row + int k) 0 l" "length xs" 0 ys]
  by (simp add: addstr_from_def enumerate_append_eq add.assoc)

lemma addstr_from_nth:
  "addstr_from row xs = map (\<lambda>i. Addstr (row + int i) 0 (xs ! i)) [0..<length xs]"
  by (rule nth_equalityI) (simp_all add: addstr_from_def nth_enumerate_eq)

lemma render_logs_window:
  assumes "\<forall>t\<in>set (buffer s). 1 \<le> max_width t" and "0 \<le> scroll s"
  shows "\<exists>ls. flat_lines (take m (drop (nat (scroll s) + a) (buffer s))) = Some ls \<and>
           render_logs s (map int [a..<a + m]) row = Some (Inr (addstr_from row ls))"
proof (induction m arbitrary: a row)
  case 0
  show ?case by (simp add: addstr_from_def)
next
  case (Suc m)
  have upt: "[a..<Suc (a + m)] = a # [Suc a..<Suc (a + m)]"
    by (simp add: upt_conv_Cons)
  show ?case
  proof (cases "nat (scroll s) + a < length (buffer s)")
    case True
    define x where "x = buffer s ! (nat (scroll s) + a)"
    have d: "drop (nat (scroll s) + a) (buffer s) = x # drop (nat (scroll s) + Suc a) (buffer s)"
      using True by (simp add: x_def Cons_nth_drop_Suc)
    have "x \<in> set (buffer s)" using True by (simp add: x_def)
    then obtain xs where xs: "TextComponent_lines x = Some xs"
      using assms(1) lines_Some by blast
    have idx: "int a + scroll s < int (length (buffer s))" "nat (int a + scroll s) = nat (scroll s) + a"
      using True assms(2) by auto
    then have g: "getitem (buffer s) (int a + scroll s) = Inr x"
      using assms(2) by (simp add: getitem_def x_def Let_def)
    from Suc [of "Suc a" "row + int (length xs)"]
    obtain ls where ls: "flat_lines (take m (drop (nat (scroll s) + Suc a) (buffer s))) = Some ls"
        "render_logs s (map int [Suc a..<Suc a + m]) (row + int (length xs))
           = Some (Inr (addstr_from (row + int (length xs)) ls))"
      by blast
    have "flat_lines (take (Suc m) (drop (nat (scroll s) + a) (buffer s))) = Some (xs @ ls)"
      using d xs ls(1) by simp
    moreover have "render_logs s (map int [a..<a + Suc m]) row = Some (Inr (addstr_from row (xs @ ls)))"
      using idx(1) g xs ls(2) by (simp add: upt addstr_from_append del: upt_Suc)
    ultimately show ?thesis by blast
  next
    case False
    then have d: "drop (nat (scroll s) + a) (buffer s) = []" "drop (nat (scroll s) + Suc a) (buffer s) = []"
      by simp_all
    have idx: "\<not> int a + scroll s < int (length (buffer s))"
      using False assms(2) by auto
    from Suc [of "Suc a" row] d(2)
    have "render_logs s (map int [Suc a..<Suc a + m]) row = Some (Inr (addstr_from row []))"
      by simp
    then show ?thesis using d(1) idx by (simp add: upt del: upt_Suc)
  qed
qed

lemma flat_lines_one_line:
  "\<forall>t\<in>set ts. \<exists>l. TextComponent_lines t = Some [l] \<Longrightarrow>
   flat_lines ts = Some (map (\<lambda>t. hd (the (TextComponent_lines t))) ts)"
  by (induction ts) auto


text \<open>
  What the log view draws when \<open>scroll \<ge> 0\<close>: the renderer takes the buffer entries of
  index \<open>scroll \<le> j < scroll + height\<close> and writes all their wrapped lines, in order, on
  consecutive rows from row 0; then come the status line, the cursor and the refresh.
  When every buffer entry wraps to a single line, row \<open>i\<close> shows the flattened line
  \<open>scroll + i\<close> for each \<open>i\<close> in \<open>[0, height)\<close> for which that line exists, and the rows
  beyond the content are left blank.
\<close>

theorem render_entries:
  assumes "state s \<noteq> DETAILS" and "0 \<le> scroll s" and "\<forall>t\<in>set (buffer s). 1 \<le> max_width t"
  shows "(\<exists>ls. flat_lines (take (nat (height s)) (drop (nat (scroll s)) (buffer s))) = Some ls \<and>
            render s = Some (Inr (Clear # addstr_from 0 ls @
                         [Addstr (height s) 0 (bottom_text s), move_call s, Refresh]))) \<and>
         ((\<forall>t\<in>set (buffer s). \<exists>l. TextComponent_lines t = Some [l]) \<longrightarrow>
            (\<exists>flat. flat_lines (buffer s) = Some flat \<and>
               render s = Some (Inr (Clear #
                 map (\<lambda>i. Addstr (int i) 0 (flat ! (nat (scroll s) + i)))
                   [0..<min (nat (height s)) (length flat - nat (scroll s))] @
                 [Addstr (height s) 0 (bottom_text s), move_call s, Refresh]))))"
proof (intro conjI impI)
  from render_logs_window [OF assms(3,2), of "nat (height s)" 0 0]
  obtain ls where ls: "flat_lines (take (nat (height s)) (drop (nat (scroll s)) (buffer s))) = Some ls"
      "render_logs s (map int [0..<nat (height s)]) 0 = Some (Inr (addstr_from 0 ls))"
    by auto
  have r: "render s = Some (Inr (Clear # addstr_from 0 ls @
                         [Addstr (height s) 0 (bottom_text s), move_call s, Refresh]))"
    using ls(2) assms(1) by (cases "state s") (simp_all add: render_def)
  with ls(1)
  show "\<exists>ls. flat_lines (take (nat (height s)) (drop (nat (scroll s)) (buffer s))) = Some ls \<and>
            render s = Some (Inr (Clear # addstr_from 0 ls @
                         [Addstr (height s) 0 (bottom_text s), move_call s, Refresh]))"
    by blast
  assume one: "\<forall>t\<in>set (buffer s). \<exists>l. TextComponent_lines t = Some [l]"
  define flat where "flat = map (\<lambda>t. hd (the (TextComponent_lines t))) (buffer s)"
  have f: "flat_lines (buffer s) = Some flat"
    using flat_lines_one_line [OF one] by (simp add: flat_def)
  have "\<forall>t\<in>set (take (nat (height s)) (drop (nat (scroll s)) (buffer s))).
          \<exists>l. TextComponent_lines t = Some [l]"
    using one by (meson in_set_dropD in_set_takeD)
  from flat_lines_one_line [OF this] ls(1)
  have "ls = take (nat (height s)) (drop (nat (scroll s)) flat)"
    by (simp add: flat_def take_map drop_map)
  then have "addstr_from 0 ls =
      map (\<lambda>i. Addstr (int i) 0 (flat ! (nat (scroll s) + i)))
        [0..<min (nat (height s)) (length flat - nat (scroll s))]"
    by (auto simp: addstr_from_nth min.commute)
  with r f
  show "\<exists>flat. flat_lines (buffer s) = Some flat \<and>
               render s = Some (Inr (Clear #
                 map (\<lambda>i. Addstr (int i) 0 (flat ! (nat (scroll s) + i)))
                   [0..<min (nat (height s)) (length flat - nat (scroll s))] @
                 [Addstr (height s) 0 (bottom_text s), move_call s, Refresh]))"
    by simp
qed

theorem render_entries_witness:
  "flat_lines (buffer abc_console) = Some [[97], [98], [99]] \<and> scroll abc_console = 1 \<and>
   render abc_console =
     Some (Inr [Clear, Addstr 0 0 [98], Addstr 1 0 [99],
                Addstr 2 0 (lit ''[ESC]quit | [^L]clear | [ENTER]details | [/]command''),
                Move 1 0, Refresh])"
  using render_entries [of abc_console]
  by (simp add: abc_console_def lines_single bottom_text_def move_call_def addstr_from_def)

text \<open>The console \<open>wrapped_console\<close> is reached by three calls of \<^verbatim>\<open>log\<close>.\<close>

lemma wrapped_console_reached:
  "log_all (Console_init (3, 80)) [[97, 10, 98], [99], [100]] = Some wrapped_console"
proof -
  have 1: "log (Console_init (3, 80)) [[97, 10, 98]] None = Some
     \<lparr>state = LOGS,
      buffer = [\<lparr>content = [97, 10, 98], details_text = lit ''No details'', max_width = 80\<rparr>],
      width = 80, height = 2, scroll = 0, cursor_x = 0, cursor_y = 1, command = []\<rparr>"
    (is "_ = Some ?s1")
    by (simp add: Console_init_def getmaxyx_def log_def log_text_def Let_def Console_lines_def
        lines_two move_cursor_def buffer_size_def)
  have 2: "log ?s1 [[99]] None = Some
     \<lparr>state = LOGS,
      buffer = [\<lparr>content = [97, 10, 98], details_text = lit ''No details'', max_width = 80\<rparr>,
                \<lparr>content = [99], details_text = lit ''No details'', max_width = 80\<rparr>],
      width = 80, height = 2, scroll = 0, cursor_x = 0, cursor_y = 1, command = []\<rparr>"
    (is "_ = Some ?s2")
    by (simp add: log_def log_text_def Let_def Console_lines_def
        lines_two lines_single move_cursor_def buffer_size_def)
  have 3: "log ?s2 [[100]] None = Some wrapped_console"
    by (simp add: log_def log_text_def Let_def Console_lines_def wrapped_console_def
        lines_two lines_single move_cursor_def buffer_size_def)
  show ?thesis by (simp add: 1 2 3)
qed

text \<open>
  Claim C5 (the log view is line-granular in the scroll offset), at an input where the
  code breaks it. The flattened lines of \<open>wrapped_console\<close> are a, b, c, d and its scroll
  offset is 1, which \<^verbatim>\<open>log\<close> counted in lines; the claim puts line b on row 0 and line c
  on row 1. \<^verbatim>\<open>render\<close> reads the offset as an index of entries and writes c on row 0 and
  d on row 1.
\<close>

theorem render_counts_entries:
  "flat_lines (buffer wrapped_console) = Some [[97], [98], [99], [100]] \<and>
   scroll wrapped_console = 1 \<and>
   render wrapped_console =
     Some (Inr [Clear, Addstr 0 0 [99], Addstr 1 0 [100],
                Addstr 2 0 (lit ''[ESC]quit | [^L]clear | [ENTER]details | [/]command''),
                Move 1 0, Refresh])"
  by (simp add: wrapped_console_def render_def getitem_def lines_two lines_single
      numeral_2_eq_2 addstr_from_def bottom_text_def move_call_def)

section \<open>Scrolling and eviction\<close>

text \<open>
  What \<^verbatim>\<open>_move_cursor\<close> keeps: on a window of height at least 1 the cursor row ends in
  \<open>[0, height)\<close>; the scroll offset stays in \<open>[0, lines - height]\<close> when it was there,
  the cursor row was in the window and the content is at least as tall as the window.
\<close>

lemma move_cursor_bounds:
  assumes "Console_lines s = Some n" and "1 \<le> height s" and "move_cursor s x y = Some s'"
  shows "0 \<le> cursor_y s' \<and> cursor_y s' < height s' \<and>
         (height s \<le> n \<and> 0 \<le> scroll s \<and> scroll s \<le> n - height s \<and>
          0 \<le> cursor_y s \<and> cursor_y s < height s \<longrightarrow>
            0 \<le> scroll s' \<and> scroll s' \<le> n - height s')"
proof -
  define sc where "sc = (if cursor_y s + y < 0 then max 0 (scroll s + y)
                        else if cursor_y s + y \<ge> height s then min (n - height s) (scroll s + y)
                        else scroll s)"
  have s': "scroll s' = sc" "height s' = height s"
    "cursor_y s' = max 0 (min (n - sc - 1) (min (cursor_y s + y) (height s - 1)))"
    using assms(3) unfolding move_cursor_eq [OF assms(1)] sc_def by auto
  have "0 \<le> cursor_y s' \<and> cursor_y s' < height s'"
    using assms(2) unfolding s' by linarith
  moreover have "height s \<le> n \<and> 0 \<le> scroll s \<and> scroll s \<le> n - height s \<and>
          0 \<le> cursor_y s \<and> cursor_y s < height s \<longrightarrow>
            0 \<le> scroll s' \<and> scroll s' \<le> n - height s'"
    unfolding s' sc_def by (simp split: if_splits)
  ultimately show ?thesis by simp
qed

text \<open>
  Claim C1 (viewport bounds invariant), at an input where the code breaks it. On a window
  of 4 rows (height 3) two messages are logged, which leaves the cursor on row 1 of 2
  lines; the End key then calls \<^verbatim>\<open>_move_cursor(0, 2)\<close>, whose branch for moving down caps
  the scroll offset at \<open>lines - height = - 1\<close> with no floor at 0. The console ends with
  scroll offset \<open>- 1\<close>, outside \<open>0 \<le> scroll \<le> max 0 (lines - height)\<close>.
\<close>

theorem end_key_negative_scroll:
  "log_all (Console_init (4, 80)) [[97], [98]] = Some two_console \<and>
   Console_lines two_console = Some 2 \<and>
   move_cursor two_console 0 2 = Some (two_console\<lparr>scroll := - 1, cursor_y := 2\<rparr>) \<and>
   on_keypress ncurses (4, 80) two_console 360
     = Some (two_console\<lparr>scroll := - 1, cursor_y := 2\<rparr>, None)"
proof -
  have 1: "log (Console_init (4, 80)) [[97]] None = Some
     \<lparr>state = LOGS,
      buffer = [\<lparr>content = [97], details_text = lit ''No details'', max_width = 80\<rparr>],
      width = 80, height = 3, scroll = 0, cursor_x = 0, cursor_y = 0, command = []\<rparr>"
    (is "_ = Some ?s1")
    by (simp add: Console_init_def getmaxyx_def log_def log_text_def Let_def Console_lines_def
        lines_single move_cursor_def buffer_size_def)
  have 2: "log ?s1 [[98]] None = Some two_console"
    by (simp add: log_def log_text_def Let_def Console_lines_def two_console_def
        lines_single move_cursor_def buffer_size_def)
  have l: "Console_lines two_console = Some 2"
    by (simp add: two_console_def Console_lines_def lines_single)
  have m: "move_cursor two_console 0 2 = Some (two_console\<lparr>scroll := - 1, cursor_y := 2\<rparr>)"
    by (simp add: move_cursor_eq [OF l]) (simp add: two_console_def)
  have st: "state two_console = LOGS" "int (length (buffer two_console)) = 2"
    by (simp_all add: two_console_def)
  have k: "on_keypress_match ncurses (4, 80) two_console 360
      = Some (Inr (two_console\<lparr>scroll := - 1, cursor_y := 2\<rparr>))"
    by (simp add: on_keypress_match_def st m ncurses_def ESCAPE_def CTRL_L_def)
  have r: "\<exists>cs. render (two_console\<lparr>scroll := - 1, cursor_y := 2\<rparr>) = Some (Inr cs)"
    by (rule render_not_details) (simp_all add: two_console_def)
  from 1 2 l m k r show ?thesis
    by (auto simp: on_keypress_def)
qed

lemma log_all_grows:
  assumes "1 \<le> width s" and "\<forall>t\<in>set (buffer s). 1 \<le> max_width t"
    and "int (length (buffer s)) + int (length ms) \<le> buffer_size + 1"
  shows "\<exists>s'. log_all s ms = Some s' \<and> width s' = width s \<and>
           buffer s' = buffer s @ map (\<lambda>m. log_text s [m] None) ms"
  using assms
proof (induction ms arbitrary: s)
  case Nil
  show ?case by simp
next
  case (Cons m ms)
  from log_result [OF Cons.prems(1,2), of "[m]" None] Cons.prems(3)
  obtain s1 where s1: "log s [m] None = Some s1" "buffer s1 = buffer s @ [log_text s [m] None]"
      "width s1 = width s"
    by auto
  have "\<forall>t\<in>set (buffer s1). 1 \<le> max_width t"
    using s1(2) Cons.prems(1,2) by (auto simp: log_text_def)
  from Cons.IH [OF _ this] s1 Cons.prems
  obtain s' where "log_all s1 ms = Some s'" "width s' = width s1"
      "buffer s' = buffer s1 @ map (\<lambda>m. log_text s1 [m] None) ms"
    by auto
  then show ?case using s1 by (simp add: log_text_def)
qed

lemma log_all_snoc:
  "log_all s (ms @ [m]) = (case log_all s ms of None \<Rightarrow> None | Some s' \<Rightarrow> log s' [m] None)"
  by (induction ms arbitrary: s) (auto split: option.splits)

text \<open>
  Claim C2 (eviction keeps the capacity bound), at the input of its scenario. \<^verbatim>\<open>log\<close>
  evicts only when the buffer already holds more than \<open>buffer_size = 1000\<close> entries, so the
  buffer settles at 1001 entries: after 1001 one-line messages on a fresh console the
  buffer has 1001 entries and its first is the first message logged; only the 1002nd
  message evicts, and then the first entry is the second message logged. Message number
  \<open>n\<close> is the one-character string of code point \<open>1000 + n\<close>.
\<close>

theorem buffer_holds_1001:
  "\<exists>s' s''. log_all (Console_init (25, 80)) (map (\<lambda>n. [1000 + n]) [0..<1001]) = Some s' \<and>
        length (buffer s') = 1001 \<and> content (hd (buffer s')) = [1000] \<and>
        log_all (Console_init (25, 80)) (map (\<lambda>n. [1000 + n]) [0..<1002]) = Some s'' \<and>
        length (buffer s'') = 1001 \<and> content (hd (buffer s'')) = [1001]"
proof -
  have "\<exists>s'. log_all (Console_init (25, 80)) (map (\<lambda>n. [1000 + n]) [0..<1001]) = Some s' \<and>
      width s' = width (Console_init (25, 80)) \<and>
      buffer s' = buffer (Console_init (25, 80)) @
        map (\<lambda>m. log_text (Console_init (25, 80)) [m] None) (map (\<lambda>n. [1000 + n]) [0..<1001])"
    by (rule log_all_grows) (simp_all add: Console_init_def getmaxyx_def buffer_size_def)
  then obtain s' where s': "log_all (Console_init (25, 80)) (map (\<lambda>n. [1000 + n]) [0..<1001]) = Some s'"
      "buffer s' = map (\<lambda>n. log_text (Console_init (25, 80)) [[1000 + n]] None) [0..<1001]"
      "width s' = 80"
    by (auto simp: Console_init_def getmaxyx_def comp_def)
  have len: "length (buffer s') = 1001" by (simp add: s'(2))
  have first: "content (hd (buffer s')) = [1000]"
    by (simp add: s'(2) hd_map log_text_def upt_conv_Cons [of 0 1001])
  have w: "\<forall>t\<in>set (buffer s'). 1 \<le> max_width t"
    by (auto simp: s'(2) log_text_def Console_init_def getmaxyx_def)
  from log_result [of s' "[[2001]]" None] w s'(3) len
  obtain s'' where s'': "log s' [[2001]] None = Some s''"
      "buffer s'' = tl (buffer s') @ [log_text s' [[2001]] None]"
    by (auto simp: buffer_size_def)
  have "[0..<1002] = [0..<1001] @ [1001]"
    using upt_Suc_append [of 0 1001] by simp
  then have all: "log_all (Console_init (25, 80)) (map (\<lambda>n. [1000 + n]) [0..<1002]) = Some s''"
    by (simp add: log_all_snoc s'(1) s''(1))
  have len': "length (buffer s'') = 1001" by (simp add: s''(2) len)
  have "tl (buffer s') = map (\<lambda>n. log_text (Console_init (25, 80)) [[1000 + n]] None) [1..<1001]"
    by (simp add: s'(2) map_tl [symmetric])
  then have second: "content (hd (buffer s'')) = [1001]"
    by (simp add: s''(2) hd_append hd_map log_text_def upt_conv_Cons [of 1 1001])
  from s'(1) len first all len' second show ?thesis by blast
qed

end
